theory Spec2Isabelle
  imports Main
begin

section \<open>JavaScript values, objects and the heap\<close>

text \<open>
  The segment state of \<^verbatim>\<open>MapSegment.js\<close> is a JavaScript object used as a map
  from query identities to pieces, and the reducer and the comparator decide by
  reference equality (\<^verbatim>\<open>===\<close>). Objects therefore live in an explicit heap: an
  address is an index into the list of all objects allocated so far, a reference
  is \<open>Ref a\<close>, and allocation appends to the list.

  The values that states, pieces and actions hold are data: \<^verbatim>\<open>undefined\<close>, \<^verbatim>\<open>null\<close>,
  booleans, numbers, strings and references to objects. Numbers are the integers
  and \<open>JNaN\<close>; the only things the code asks of a number are its truthiness and
  its identity.
\<close>

type_synonym addr = nat

datatype jsval =
    Undefined
  | Null
  | JBool bool
  | JNum int
  | JNaN
  | JStr string
  | Ref addr

text \<open>
  An object has own properties, all of them enumerable data properties, and a
  prototype: \<^verbatim>\<open>Object.prototype\<close> (what an object literal gets), \<^verbatim>\<open>null\<close>, or an
  object of the heap.
\<close>

datatype prototype = ObjectPrototype | NullPrototype | ObjectAt addr

datatype obj = Obj (props: "(string \<times> jsval) list") (proto: prototype)

type_synonym heap = "obj list"

definition plain :: "(string \<times> jsval) list \<Rightarrow> obj" where
  "plain ps = Obj ps ObjectPrototype"

text \<open>
  What a property read can yield: a stored value, a built-in function of
  \<^verbatim>\<open>Object.prototype\<close> (named by its key), or \<^verbatim>\<open>Object.prototype\<close> itself.
\<close>

datatype rval = Val jsval | Builtin string | TheObjectPrototype

text \<open>The JavaScript exceptions: a \<^verbatim>\<open>TypeError\<close> of the runtime, and \<^verbatim>\<open>throw new Error(msg)\<close>.\<close>

datatype failure = TypeError | Error string

definition obj_at :: "heap \<Rightarrow> addr \<Rightarrow> obj" where
  "obj_at h a = (if a < length h then h ! a else plain [])"

text \<open>An object literal: the new object gets the next free address.\<close>

definition alloc :: "heap \<Rightarrow> obj \<Rightarrow> addr \<times> heap" where
  "alloc h ob = (length h, h @ [ob])"

definition has_own :: "heap \<Rightarrow> addr \<Rightarrow> string \<Rightarrow> bool" where
  "has_own h a k = (map_of (props (obj_at h a)) k \<noteq> None)"

text \<open>The names of the function-valued members of \<^verbatim>\<open>Object.prototype\<close>.\<close>

definition builtin_names :: "string list" where
  "builtin_names =
     [''constructor'', ''hasOwnProperty'', ''isPrototypeOf'', ''propertyIsEnumerable'',
      ''toLocaleString'', ''toString'', ''valueOf'', ''__defineGetter__'',
      ''__defineSetter__'', ''__lookupGetter__'', ''__lookupSetter__'']"

text \<open>
  The walk along the prototype chain that every read and every assignment
  starts with. It ends at the first object that has the key as an own property,
  at \<^verbatim>\<open>Object.prototype\<close> (where \<^verbatim>\<open>__proto__\<close> is an accessor and the built-in
  functions live), or at \<^verbatim>\<open>null\<close>.

  The first argument bounds the number of objects visited. A prototype chain
  never runs in a circle (the \<^verbatim>\<open>__proto__\<close> setter refuses to close one, see
  \<open>set_prototype\<close>), so on a heap of \<open>n\<close> objects a walk visits at most \<open>n\<close> of
  them, and the callers pass the length of the heap.
\<close>

datatype found = Data jsval | Member string | ProtoAccessor | Missing

fun find_prop :: "nat \<Rightarrow> heap \<Rightarrow> prototype \<Rightarrow> string \<Rightarrow> found" where
  "find_prop n h ObjectPrototype k =
     (if k = ''__proto__'' then ProtoAccessor
      else if k \<in> set builtin_names then Member k
      else Missing)"
| "find_prop n h NullPrototype k = Missing"
| "find_prop 0 h (ObjectAt a) k = Missing"
| "find_prop (Suc n) h (ObjectAt a) k =
     (case map_of (props (obj_at h a)) k of
        Some v \<Rightarrow> Data v
      | None \<Rightarrow> find_prop n h (proto (obj_at h a)) k)"

text \<open>What the \<^verbatim>\<open>__proto__\<close> getter returns for an object with the given prototype.\<close>

fun proto_value :: "prototype \<Rightarrow> rval" where
  "proto_value ObjectPrototype = TheObjectPrototype"
| "proto_value NullPrototype = Val Null"
| "proto_value (ObjectAt b) = Val (Ref b)"

text \<open>\<^verbatim>\<open>o[k]\<close> for the object at address \<open>a\<close>.\<close>

definition get_prop :: "heap \<Rightarrow> addr \<Rightarrow> string \<Rightarrow> rval" where
  "get_prop h a k =
     (case find_prop (length h) h (ObjectAt a) k of
        Data v \<Rightarrow> Val v
      | Member m \<Rightarrow> Builtin m
      | ProtoAccessor \<Rightarrow> proto_value (proto (obj_at h a))
      | Missing \<Rightarrow> Val Undefined)"

text \<open>Writing an own property: an existing key keeps its place, a new key is appended.\<close>

fun put :: "string \<Rightarrow> jsval \<Rightarrow> (string \<times> jsval) list \<Rightarrow> (string \<times> jsval) list" where
  "put k v [] = [(k, v)]"
| "put k v ((k', v') # ps) = (if k' = k then (k, v) # ps else (k', v') # put k v ps)"

text \<open>
  Whether the object at address \<open>a\<close> is the object the chain starts at or one of
  the objects above it.
\<close>

fun on_chain :: "nat \<Rightarrow> heap \<Rightarrow> prototype \<Rightarrow> addr \<Rightarrow> bool" where
  "on_chain (Suc n) h (ObjectAt b) a = (b = a \<or> on_chain n h (proto (obj_at h b)) a)"
| "on_chain n h p a = False"

text \<open>
  The \<^verbatim>\<open>__proto__\<close> setter of \<^verbatim>\<open>Object.prototype\<close>, called on the object at address
  \<open>a\<close>. A value that is neither an object nor \<^verbatim>\<open>null\<close> is ignored. An object that
  has \<open>a\<close> on its own chain is refused with a \<^verbatim>\<open>TypeError\<close>. Otherwise the value
  becomes the prototype.
\<close>

fun set_prototype :: "heap \<Rightarrow> addr \<Rightarrow> jsval \<Rightarrow> failure + heap" where
  "set_prototype h a (Ref b) =
     (if proto (obj_at h a) = ObjectAt b then Inr h
      else if on_chain (length h) h (ObjectAt b) a then Inl TypeError
      else Inr (h[a := Obj (props (obj_at h a)) (ObjectAt b)]))"
| "set_prototype h a Null = Inr (h[a := Obj (props (obj_at h a)) NullPrototype])"
| "set_prototype h a v = Inr h"

text \<open>
  \<^verbatim>\<open>o[k] = v\<close> for the object at address \<open>a\<close>. If the walk ends at the \<^verbatim>\<open>__proto__\<close>
  accessor the setter runs. In every other case (the key is an own data
  property of the object or of one above it, a built-in of \<^verbatim>\<open>Object.prototype\<close>,
  or nowhere) the key becomes or stays an own property of the object.
\<close>

definition set_prop :: "heap \<Rightarrow> addr \<Rightarrow> string \<Rightarrow> jsval \<Rightarrow> failure + heap" where
  "set_prop h a k v =
     (case find_prop (length h) h (ObjectAt a) k of
        ProtoAccessor \<Rightarrow> set_prototype h a v
      | _ \<Rightarrow> Inr (h[a := Obj (put k v (props (obj_at h a))) (proto (obj_at h a))]))"

text \<open>\<^verbatim>\<open>!!v\<close>. A built-in function and \<^verbatim>\<open>Object.prototype\<close> are objects, hence truthy.\<close>

fun truthy :: "jsval \<Rightarrow> bool" where
  "truthy Undefined = False"
| "truthy Null = False"
| "truthy (JBool b) = b"
| "truthy (JNum n) = (n \<noteq> 0)"
| "truthy JNaN = False"
| "truthy (JStr s) = (s \<noteq> [])"
| "truthy (Ref a) = True"

fun truthy_rval :: "rval \<Rightarrow> bool" where
  "truthy_rval (Val v) = truthy v"
| "truthy_rval (Builtin f) = True"
| "truthy_rval TheObjectPrototype = True"

text \<open>\<^verbatim>\<open>a === b\<close>: identity of references, equality of primitives, and \<^verbatim>\<open>NaN !== NaN\<close>.\<close>

definition strict_eq :: "rval \<Rightarrow> rval \<Rightarrow> bool" where
  "strict_eq a b = (a = b \<and> a \<noteq> Val JNaN)"

text \<open>\<^verbatim>\<open>v == null\<close>.\<close>

definition loose_eq_null :: "jsval \<Rightarrow> bool" where
  "loose_eq_null v = (v = Null \<or> v = Undefined)"

text \<open>
  The documented type of the \<^verbatim>\<open>errors\<close> argument of \<^verbatim>\<open>_createSyncLoadActionObject\<close>
  is \<^verbatim>\<open>void | Array\<close>: nothing (\<^verbatim>\<open>undefined\<close>, and \<^verbatim>\<open>null\<close> with it) or an object.
\<close>

fun void_or_object :: "jsval \<Rightarrow> bool" where
  "void_or_object Undefined = True"
| "void_or_object Null = True"
| "void_or_object (Ref a) = True"
| "void_or_object v = False"

text \<open>
  \<^verbatim>\<open>v.loaded\<close>. Reading a property of \<^verbatim>\<open>undefined\<close> or \<^verbatim>\<open>null\<close> throws; booleans,
  numbers, strings, the built-in functions and \<^verbatim>\<open>Object.prototype\<close> have no
  property of that name.
\<close>

fun loaded_of :: "heap \<Rightarrow> rval \<Rightarrow> failure + rval" where
  "loaded_of h (Val Undefined) = Inl TypeError"
| "loaded_of h (Val Null) = Inl TypeError"
| "loaded_of h (Val (Ref a)) = Inr (get_prop h a ''loaded'')"
| "loaded_of h v = Inr (Val Undefined)"

text \<open>
  \<^verbatim>\<open>state.hasOwnProperty(queryId)\<close>: the method is looked up on the state like any
  other property. The read yields the built-in only if neither the state nor an
  object above it has an entry under the key \<^verbatim>\<open>hasOwnProperty\<close> and the chain
  reaches \<^verbatim>\<open>Object.prototype\<close>; any other result is a stored value or
  \<^verbatim>\<open>undefined\<close>, and calling that throws.
\<close>

definition hasOwnProperty :: "heap \<Rightarrow> addr \<Rightarrow> string \<Rightarrow> failure + bool" where
  "hasOwnProperty h state k =
     (case get_prop h state ''hasOwnProperty'' of
        Builtin f \<Rightarrow> Inr (has_own h state k)
      | _ \<Rightarrow> Inl TypeError)"

text \<open>
  The keys that \<^verbatim>\<open>for (k in o)\<close> visits: the own keys of the object, then those
  of the objects above it, each name once. \<^verbatim>\<open>Object.prototype\<close> has no
  enumerable property. Within one object the keys come in the order of the
  list, where JavaScript puts integer-like keys first; the copy loop writes each
  own key once, under its own name, so that order does not show in its result.
\<close>

fun chain_keys :: "nat \<Rightarrow> heap \<Rightarrow> prototype \<Rightarrow> string list" where
  "chain_keys (Suc n) h (ObjectAt a) =
     map fst (props (obj_at h a)) @ chain_keys n h (proto (obj_at h a))"
| "chain_keys n h p = []"

definition for_in_keys :: "heap \<Rightarrow> addr \<Rightarrow> string list" where
  "for_in_keys h a = rev (remdups (rev (chain_keys (length h) h (ObjectAt a))))"

text \<open>
  An object as an object literal makes it: its prototype is \<^verbatim>\<open>Object.prototype\<close>
  and it has no own property named \<^verbatim>\<open>__proto__\<close>.
\<close>

fun is_plain :: "heap \<Rightarrow> jsval \<Rightarrow> bool" where
  "is_plain h (Ref p) = (proto (obj_at h p) = ObjectPrototype \<and> \<not> has_own h p ''__proto__'')"
| "is_plain h v = False"

section \<open>The segment and its actions\<close>

text \<open>
  The three action types are computed once, in the constructor, by
  \<^verbatim>\<open>ActionNameUtil.generate\<close>, which is a parameter here.
\<close>

record segment =
  loadActionType :: string
  initActionType :: string
  cleanActionType :: string

definition MapSegment :: "(string \<Rightarrow> string \<Rightarrow> string) \<Rightarrow> string \<Rightarrow> segment" where
  "MapSegment generate ident =
     \<lparr> loadActionType = generate ident ''LOAD'',
       initActionType = generate ident ''INIT'',
       cleanActionType = generate ident ''CLEAN'' \<rparr>"

definition distinct_types :: "segment \<Rightarrow> bool" where
  "distinct_types seg = distinct [loadActionType seg, initActionType seg, cleanActionType seg]"

text \<open>
  An action object. A field the object does not have reads as \<^verbatim>\<open>undefined\<close>:
  \<open>queryId = None\<close> and \<open>payload = Undefined\<close>. Used as a property key,
  \<^verbatim>\<open>undefined\<close> is the string \<^verbatim>\<open>"undefined"\<close>.
\<close>

record action =
  atype :: jsval
  queryId :: "string option"
  payload :: jsval

fun prop_key :: "string option \<Rightarrow> string" where
  "prop_key None = ''undefined''"
| "prop_key (Some k) = k"

text \<open>
  The abstract hooks. \<open>inst\<close> is the string that \<^verbatim>\<open>'...' + this\<close> makes of the
  instance.
\<close>

definition generateQueryId :: "string \<Rightarrow> 'q \<Rightarrow> failure + string" where
  "generateQueryId inst query =
     Inl (Error (''User must override this _generateQueryId method! Instance: '' @ inst @ ''.''))"

definition generateThunkFunction :: "string \<Rightarrow> 't \<Rightarrow> failure + unit" where
  "generateThunkFunction inst thunk =
     Inl (Error (''User must override _generateThunkFunction method! Instance: '' @ inst @ ''.''))"

text \<open>
  The action creators. The payload of a load or init action is a new piece
  object, made by an object literal; \<open>now\<close> is the reading of the clock.
\<close>

definition createSyncLoadActionObject ::
  "segment \<Rightarrow> heap \<Rightarrow> string \<Rightarrow> jsval \<Rightarrow> jsval \<Rightarrow> int \<Rightarrow> action \<times> heap" where
  "createSyncLoadActionObject seg h qid pl errors now =
     (let (piece, h') =
            alloc h (plain [(''data'', pl),
                            (''updated'', JNum now),
                            (''errors'', errors),
                            (''loaded'', JBool (if truthy errors then False else True))])
      in (\<lparr> atype = JStr (loadActionType seg), queryId = Some qid, payload = Ref piece \<rparr>, h'))"

definition createSyncInitAction :: "segment \<Rightarrow> heap \<Rightarrow> string \<Rightarrow> int \<Rightarrow> action \<times> heap" where
  "createSyncInitAction seg h qid now =
     (let (piece, h') =
            alloc h (plain [(''data'', Null),
                            (''updated'', JNum now),
                            (''errors'', Null),
                            (''loaded'', JBool False)])
      in (\<lparr> atype = JStr (initActionType seg), queryId = Some qid, payload = Ref piece \<rparr>, h'))"

definition createSyncCleanAction :: "segment \<Rightarrow> action" where
  "createSyncCleanAction seg =
     \<lparr> atype = JStr (cleanActionType seg), queryId = None, payload = Undefined \<rparr>"

section \<open>The comparator\<close>

definition getPieceObject :: "heap \<Rightarrow> addr \<Rightarrow> string \<Rightarrow> rval" where
  "getPieceObject h state qid = get_prop h state qid"

definition isStateEqual :: "addr \<Rightarrow> addr \<Rightarrow> bool" where
  "isStateEqual segmentStateA segmentStateB = (segmentStateA = segmentStateB)"

text \<open>\<open>None\<close> is \<^verbatim>\<open>null\<close>; \<open>Some [v]\<close> is the one-element array.\<close>

definition comparePiece :: "heap \<Rightarrow> addr \<Rightarrow> addr \<Rightarrow> string \<Rightarrow> rval list option" where
  "comparePiece h prevSegmentState segmentState qid =
     (if isStateEqual prevSegmentState segmentState then None
      else if strict_eq (get_prop h prevSegmentState qid) (get_prop h segmentState qid) then None
      else Some [getPieceObject h segmentState qid])"

section \<open>The reducer\<close>

text \<open>
  The body of the \<^verbatim>\<open>for (queryId in state)\<close> loop of \<^verbatim>\<open>_createNewStateObj\<close>, over
  the keys still to visit. The heap is returned in every case, so that what a
  failed call leaves behind can be inspected too. Where \<^verbatim>\<open>hasOwnProperty\<close> has
  answered \<^verbatim>\<open>true\<close> the read \<^verbatim>\<open>state[queryId]\<close> yields the stored value (lemma
  \<open>get_prop_own\<close> below), so the last case of the read never runs.
\<close>

fun copy_loop :: "heap \<Rightarrow> addr \<Rightarrow> addr \<Rightarrow> string list \<Rightarrow> failure option \<times> heap" where
  "copy_loop h state newState [] = (None, h)"
| "copy_loop h state newState (qid # rest) =
     (case hasOwnProperty h state qid of
        Inl e \<Rightarrow> (Some e, h)
      | Inr own \<Rightarrow>
          if \<not> own then copy_loop h state newState rest
          else (case get_prop h state qid of
                  Val v \<Rightarrow>
                    (case set_prop h newState qid v of
                       Inl e \<Rightarrow> (Some e, h)
                     | Inr h' \<Rightarrow> copy_loop h' state newState rest)
                | _ \<Rightarrow> copy_loop h state newState rest))"

definition createNewStateObj :: "heap \<Rightarrow> addr \<Rightarrow> (failure + addr) \<times> heap" where
  "createNewStateObj h state =
     (let (newState, h1) = alloc h (plain []) in
      case copy_loop h1 state newState (for_in_keys h1 state) of
        (Some e, h2) \<Rightarrow> (Inl e, h2)
      | (None, h2) \<Rightarrow> (Inr newState, h2))"

text \<open>
  The three statements shared by the load and the init case:
  \<^verbatim>\<open>newState = this._createNewStateObj(state); newState[action.queryId] = action.payload; return newState;\<close>
\<close>

definition replace_entry :: "heap \<Rightarrow> addr \<Rightarrow> action \<Rightarrow> (failure + addr) \<times> heap" where
  "replace_entry h state act =
     (case createNewStateObj h state of
        (Inl e, h1) \<Rightarrow> (Inl e, h1)
      | (Inr newState, h1) \<Rightarrow>
          (case set_prop h1 newState (prop_key (queryId act)) (payload act) of
             Inl e \<Rightarrow> (Inl e, h1)
           | Inr h2 \<Rightarrow> (Inr newState, h2)))"

text \<open>\<^verbatim>\<open>!state[action.queryId] || !state[action.queryId].loaded\<close>, with its short circuit.\<close>

definition isUninitialized :: "heap \<Rightarrow> addr \<Rightarrow> string \<Rightarrow> failure + bool" where
  "isUninitialized h state k =
     (if \<not> truthy_rval (get_prop h state k) then Inr True
      else (case loaded_of h (get_prop h state k) of
              Inl e \<Rightarrow> Inl e
            | Inr l \<Rightarrow> Inr (\<not> truthy_rval l)))"

text \<open>
  The function returned by \<^verbatim>\<open>_getReducer\<close>. The state argument is \<open>None\<close> when
  the store has no state yet (\<^verbatim>\<open>undefined\<close>), and the address of the state object
  otherwise. The result is the address of the returned state, or the failure,
  and the heap after the call.
\<close>

definition reducer :: "segment \<Rightarrow> heap \<Rightarrow> addr option \<Rightarrow> action \<Rightarrow> (failure + addr) \<times> heap" where
  "reducer seg h state0 act =
     (let (state, h0) = (case state0 of None \<Rightarrow> alloc h (plain []) | Some s \<Rightarrow> (s, h)) in
      if atype act = JStr (cleanActionType seg) then
        (let (fresh, h1) = alloc h0 (plain []) in (Inr fresh, h1))
      else if atype act = JStr (loadActionType seg) then
        replace_entry h0 state act
      else if atype act = JStr (initActionType seg) then
        (case isUninitialized h0 state (prop_key (queryId act)) of
           Inl e \<Rightarrow> (Inl e, h0)
         | Inr uninit \<Rightarrow> if uninit then replace_entry h0 state act else (Inr state, h0))
      else (Inr state, h0))"

section \<open>Sample data\<close>

text \<open>A segment, a few pieces and actions, for the concrete runs below.\<close>

definition demo_segment :: segment where
  "demo_segment =
     \<lparr> loadActionType = ''user.LOAD'', initActionType = ''user.INIT'',
       cleanActionType = ''user.CLEAN'' \<rparr>"

definition loaded_piece :: obj where
  "loaded_piece =
     plain [(''data'', JStr ''alice''), (''updated'', JNum 1), (''errors'', Undefined),
            (''loaded'', JBool True)]"

definition failed_piece :: obj where
  "failed_piece =
     plain [(''data'', Null), (''updated'', JNum 1), (''errors'', JStr ''timeout''),
            (''loaded'', JBool False)]"

definition blank_piece :: obj where
  "blank_piece =
     plain [(''data'', Null), (''updated'', JNum 2), (''errors'', Null),
            (''loaded'', JBool False)]"

definition load_action :: "string \<Rightarrow> addr \<Rightarrow> action" where
  "load_action qid piece =
     \<lparr> atype = JStr ''user.LOAD'', queryId = Some qid, payload = Ref piece \<rparr>"

definition init_action :: "string \<Rightarrow> addr \<Rightarrow> action" where
  "init_action qid piece =
     \<lparr> atype = JStr ''user.INIT'', queryId = Some qid, payload = Ref piece \<rparr>"

section \<open>Lemmas about the heap, the prototype chain and the copy\<close>

lemmas run_defs =
  reducer_def replace_entry_def createNewStateObj_def isUninitialized_def
  hasOwnProperty_def set_prop_def get_prop_def has_own_def obj_at_def alloc_def
  for_in_keys_def builtin_names_def plain_def
  comparePiece_def isStateEqual_def getPieceObject_def strict_eq_def
  createSyncLoadActionObject_def createSyncInitAction_def createSyncCleanAction_def
  demo_segment_def loaded_piece_def failed_piece_def blank_piece_def
  load_action_def init_action_def

lemma map_of_put: "map_of (put k v ps) = (map_of ps)(k \<mapsto> v)"
  by (induction ps) (auto simp: fun_eq_iff)

lemma obj_at_append: "a < length h \<Longrightarrow> obj_at (h @ hs) a = obj_at h a"
  by (simp add: obj_at_def nth_append)

lemma obj_at_alloc: "obj_at (h @ [ob]) (length h) = ob"
  by (simp add: obj_at_def)

lemma obj_at_update:
  "obj_at (h[a := ob]) b = (if b = a \<and> a < length h then ob else obj_at h b)"
  by (simp add: obj_at_def)

lemma obj_at_prefix: "take n h' = h \<Longrightarrow> a < length h \<Longrightarrow> obj_at h' a = obj_at h a"
  by (auto simp: obj_at_def)

lemma obj_at_valid: "props (obj_at h a) \<noteq> [] \<Longrightarrow> a < length h"
  by (auto simp: obj_at_def plain_def split: if_splits)

lemma take_take_prefix:
  assumes "take (length b) c = b" and "take (length a) b = a"
  shows "take (length a) c = a" and "length a \<le> length b"
proof -
  show le: "length a \<le> length b"
    using assms(2) by (metis length_take min.cobounded1)
  then have "take (length a) c = take (length a) (take (length b) c)"
    by (simp add: min_def)
  with assms show "take (length a) c = a" by simp
qed

lemma set_prototype_length: "set_prototype h a v = Inr h' \<Longrightarrow> length h' = length h"
  by (cases v) (auto split: if_splits)

lemma set_prototype_take:
  "set_prototype h a v = Inr h' \<Longrightarrow> n \<le> a \<Longrightarrow> take n h' = take n h"
  by (cases v) (auto split: if_splits)

lemma set_prop_length: "set_prop h a k v = Inr h' \<Longrightarrow> length h' = length h"
  by (auto simp: set_prop_def split: found.splits dest: set_prototype_length)

lemma set_prop_take: "set_prop h a k v = Inr h' \<Longrightarrow> n \<le> a \<Longrightarrow> take n h' = take n h"
  by (auto simp: set_prop_def split: found.splits dest: set_prototype_take)

lemma copy_loop_length: "length (snd (copy_loop h state newState ks)) = length h"
  by (induction ks arbitrary: h) (auto split: sum.splits rval.splits dest: set_prop_length)

lemma copy_loop_take:
  "n \<le> newState \<Longrightarrow> take n (snd (copy_loop h state newState ks)) = take n h"
  by (induction ks arbitrary: h) (auto split: sum.splits rval.splits dest: set_prop_take)

lemma createNewStateObj_length:
  "length (snd (createNewStateObj h state)) = Suc (length h)"
  using copy_loop_length [of "h @ [plain []]" state "length h" "for_in_keys (h @ [plain []]) state"]
  by (auto simp: createNewStateObj_def alloc_def split: prod.splits option.splits)

lemma createNewStateObj_take:
  "take (length h) (snd (createNewStateObj h state)) = h"
  using copy_loop_take [of "length h" "length h" "h @ [plain []]" state
          "for_in_keys (h @ [plain []]) state"]
  by (auto simp: createNewStateObj_def alloc_def split: prod.splits option.splits)

lemma createNewStateObj_Inr:
  "fst (createNewStateObj h state) = Inr a \<Longrightarrow> a = length h"
  by (auto simp: createNewStateObj_def alloc_def split: prod.splits option.splits)

lemma replace_entry_take:
  "take (length h) (snd (replace_entry h state act)) = h"
proof (cases "createNewStateObj h state")
  case (Pair r h1)
  have h1: "take (length h) h1 = h"
    using createNewStateObj_take [of h state] Pair by simp
  show ?thesis
  proof (cases r)
    case (Inl e)
    with Pair h1 show ?thesis by (simp add: replace_entry_def)
  next
    case (Inr newState)
    with Pair have ns: "newState = length h"
      using createNewStateObj_Inr [of h state newState] by simp
    show ?thesis
    proof (cases "set_prop h1 newState (prop_key (queryId act)) (payload act)")
      case (Inl e)
      with Pair Inr h1 show ?thesis by (simp add: replace_entry_def)
    next
      case (Inr h2)
      then have "take (length h) h2 = take (length h) h1"
        using set_prop_take [of h1 newState _ _ h2 "length h"] ns by simp
      with Pair \<open>r = Inr newState\<close> Inr h1 show ?thesis by (simp add: replace_entry_def)
    qed
  qed
qed

lemma replace_entry_take_fresh:
  "take (length h) (snd (replace_entry (h @ [ob]) (length h) act)) = h"
proof -
  let ?X = "snd (replace_entry (h @ [ob]) (length h) act)"
  have "take (length h) ?X = take (length h) (take (length (h @ [ob])) ?X)"
    by (simp add: min_def)
  also have "\<dots> = take (length h) (h @ [ob])"
    by (simp only: replace_entry_take)
  also have "\<dots> = h"
    by simp
  finally show ?thesis .
qed

lemma find_prop_accessor_key: "find_prop n h p k = ProtoAccessor \<Longrightarrow> k = ''__proto__''"
  by (induction n h p k rule: find_prop.induct) (auto split: if_splits option.splits)

text \<open>
  A walk that found the key, a built-in or the accessor is the same walk with
  any larger bound: the bound only cuts a walk that would go on.
\<close>

lemma find_prop_fuel:
  "find_prop n h p k \<noteq> Missing \<Longrightarrow> n \<le> m \<Longrightarrow> find_prop m h p k = find_prop n h p k"
proof (induction n h p k arbitrary: m rule: find_prop.induct)
  case (4 n h a k)
  from "4.prems"(2) obtain m' where m: "m = Suc m'" and le: "n \<le> m'"
    by (cases m) auto
  show ?case
  proof (cases "map_of (props (obj_at h a)) k")
    case None
    with "4.prems"(1) have "find_prop n h (proto (obj_at h a)) k \<noteq> Missing" by simp
    from "4.IH" [OF None this le] None m show ?thesis by simp
  next
    case (Some w)
    with m show ?thesis by simp
  qed
qed auto

lemma find_prop_Data_mono:
  "find_prop n h p k = Data v \<Longrightarrow> n \<le> m \<Longrightarrow> take (length h) h' = h
     \<Longrightarrow> find_prop m h' p k = Data v"
proof (induction n h p k arbitrary: m rule: find_prop.induct)
  case (4 n h a k)
  from "4.prems"(2) obtain m' where m: "m = Suc m'" and le: "n \<le> m'"
    by (cases m) auto
  have valid: "a < length h"
  proof (rule ccontr)
    assume "\<not> a < length h"
    then have "obj_at h a = plain []" by (simp add: obj_at_def)
    with "4.prems"(1) show False by (simp add: plain_def split: if_splits)
  qed
  then have same: "obj_at h' a = obj_at h a"
    using obj_at_prefix [OF "4.prems"(3)] by simp
  show ?case
  proof (cases "map_of (props (obj_at h a)) k")
    case None
    with "4.prems"(1) have "find_prop n h (proto (obj_at h a)) k = Data v" by simp
    from "4.IH" [OF None this le "4.prems"(3)] None same m show ?thesis by simp
  next
    case (Some w)
    with "4.prems"(1) same m show ?thesis by simp
  qed
qed (auto split: if_splits)

lemma find_prop_loaded:
  "find_prop n h p ''loaded'' = Missing \<or> (\<exists>v. find_prop n h p ''loaded'' = Data v)"
  by (induction n h p "''loaded''" rule: find_prop.induct)
     (auto simp: builtin_names_def split: option.splits)

lemma get_prop_own:
  assumes "has_own h a k"
  shows "\<exists>v. map_of (props (obj_at h a)) k = Some v \<and> get_prop h a k = Val v"
proof -
  from assms obtain v where v: "map_of (props (obj_at h a)) k = Some v"
    by (auto simp: has_own_def)
  then have "props (obj_at h a) \<noteq> []" by auto
  then have "a < length h" by (rule obj_at_valid)
  then obtain n where "length h = Suc n" by (cases "length h") auto
  with v show ?thesis by (simp add: get_prop_def)
qed

lemma loaded_of_truthy:
  assumes "loaded_of h rv = Inr l" and "truthy_rval l"
  shows "\<exists>p v. rv = Val (Ref p) \<and> p < length h \<and> truthy v
           \<and> find_prop (length h) h (ObjectAt p) ''loaded'' = Data v"
proof -
  from assms obtain p where rv: "rv = Val (Ref p)" and l: "l = get_prop h p ''loaded''"
    by (cases "(h, rv)" rule: loaded_of.cases) auto
  from find_prop_loaded [of "length h" h "ObjectAt p"] l assms(2)
  obtain v where v: "find_prop (length h) h (ObjectAt p) ''loaded'' = Data v" and "truthy v"
    by (auto simp: get_prop_def)
  have "p < length h"
  proof (rule ccontr)
    assume "\<not> p < length h"
    then have "obj_at h p = plain []" by (simp add: obj_at_def)
    with v show False
      by (cases "length h") (simp_all add: plain_def builtin_names_def)
  qed
  with rv v \<open>truthy v\<close> show ?thesis by blast
qed

lemma replace_entry_Inr:
  assumes "replace_entry h state act = (Inr a, h')"
  shows "a = length h" and "length h' = Suc (length h)" and "take (length h) h' = h"
    and "\<exists>hc. length hc = Suc (length h) \<and> take (length h) hc = h
           \<and> set_prop hc a (prop_key (queryId act)) (payload act) = Inr h'"
proof -
  obtain r h1 where c: "createNewStateObj h state = (r, h1)"
    by (cases "createNewStateObj h state")
  from assms c obtain newState where r: "r = Inr newState"
    by (cases r) (auto simp: replace_entry_def)
  from assms c r have sp: "set_prop h1 a (prop_key (queryId act)) (payload act) = Inr h'"
    and an: "a = newState"
    by (auto simp: replace_entry_def split: sum.splits)
  from c r an show a: "a = length h"
    using createNewStateObj_Inr [of h state newState] by simp
  have l1: "length h1 = Suc (length h)"
    using createNewStateObj_length [of h state] c by simp
  have t1: "take (length h) h1 = h"
    using createNewStateObj_take [of h state] c by simp
  from sp l1 show "length h' = Suc (length h)"
    by (simp add: set_prop_length)
  from sp a t1 show "take (length h) h' = h"
    using set_prop_take [of h1 a _ _ h' "length h"] by simp
  from sp l1 t1 show "\<exists>hc. length hc = Suc (length h) \<and> take (length h) hc = h
           \<and> set_prop hc a (prop_key (queryId act)) (payload act) = Inr h'"
    by blast
qed

lemma set_prop_entry:
  assumes sp: "set_prop hc a k (Ref p) = Inr h1" and a: "a < length hc"
    and pl: "k = ''__proto__'' \<Longrightarrow> is_plain hc (Ref p) \<and> p < length hc"
  shows "map_of (props (obj_at h1 a)) k = Some (Ref p)
       \<or> (k = ''__proto__'' \<and> map_of (props (obj_at h1 a)) k = None
          \<and> proto (obj_at h1 a) = ObjectAt p \<and> p < length h1 \<and> is_plain h1 (Ref p))"
proof (cases "find_prop (length hc) hc (ObjectAt a) k = ProtoAccessor")
  case False
  with sp have "h1 = hc[a := Obj (put k (Ref p) (props (obj_at hc a))) (proto (obj_at hc a))]"
    by (auto simp: set_prop_def split: found.splits)
  with a show ?thesis by (simp add: obj_at_update map_of_put)
next
  case True
  then have k: "k = ''__proto__''" by (rule find_prop_accessor_key)
  from a obtain n where n: "length hc = Suc n" by (cases "length hc") auto
  from True n have own: "map_of (props (obj_at hc a)) k = None"
    by (auto split: option.splits)
  from pl k have plain: "is_plain hc (Ref p)" and p: "p < length hc" by simp_all
  from sp True have st: "set_prototype hc a (Ref p) = Inr h1"
    by (simp add: set_prop_def)
  show ?thesis
  proof (cases "proto (obj_at hc a) = ObjectAt p")
    case True
    with st have "h1 = hc" by simp
    with True own k plain p show ?thesis by simp
  next
    case False
    with st have nc: "\<not> on_chain (length hc) hc (ObjectAt p) a"
      and h1: "h1 = hc[a := Obj (props (obj_at hc a)) (ObjectAt p)]"
      by (auto split: if_splits)
    from nc n have "p \<noteq> a" by auto
    with h1 a own k plain p show ?thesis
      by (simp add: obj_at_update has_own_def)
  qed
qed

lemma entry_read:
  assumes e: "map_of (props (obj_at h1 a)) k = Some (Ref p)
       \<or> (k = ''__proto__'' \<and> map_of (props (obj_at h1 a)) k = None
          \<and> proto (obj_at h1 a) = ObjectAt p \<and> p < length h1 \<and> is_plain h1 (Ref p))"
    and a: "a < length h1" and ext: "take (length h1) h2 = h1"
  shows "get_prop h2 a k = Val (Ref p)"
proof -
  have sa: "obj_at h2 a = obj_at h1 a"
    using obj_at_prefix [OF ext a] .
  have le: "length h1 \<le> length h2"
    using take_take_prefix(2) [of h2 h2 h1] ext by simp
  from e show ?thesis
  proof
    assume own: "map_of (props (obj_at h1 a)) k = Some (Ref p)"
    from a le obtain n where "length h2 = Suc n" by (cases "length h2") auto
    with own sa show ?thesis by (simp add: get_prop_def)
  next
    assume b: "k = ''__proto__'' \<and> map_of (props (obj_at h1 a)) k = None
          \<and> proto (obj_at h1 a) = ObjectAt p \<and> p < length h1 \<and> is_plain h1 (Ref p)"
    then have k: "k = ''__proto__''" and own: "map_of (props (obj_at h1 a)) k = None"
      and pa: "proto (obj_at h1 a) = ObjectAt p" and p: "p < length h1"
      and ip: "is_plain h1 (Ref p)"
      by blast+
    from ip k have pp: "proto (obj_at h1 p) = ObjectPrototype"
      and po: "map_of (props (obj_at h1 p)) k = None"
      by (simp_all add: has_own_def)
    have sp: "obj_at h2 p = obj_at h1 p"
      using obj_at_prefix [OF ext p] .
    have "p \<noteq> a"
    proof
      assume "p = a"
      with pa pp show False by simp
    qed
    with a p le have "Suc (Suc 0) \<le> length h2" by linarith
    then obtain m where m: "length h2 = Suc m" and "Suc 0 \<le> m"
      by (cases "length h2") auto
    then obtain n where n: "m = Suc n"
      by (cases m) auto
    have "find_prop (Suc (Suc n)) h2 (ObjectAt a) k = find_prop (Suc n) h2 (ObjectAt p) k"
      using own pa sa by simp
    also have "\<dots> = find_prop n h2 ObjectPrototype k"
      using po pp sp by simp
    also have "\<dots> = ProtoAccessor"
      using k by simp
    finally have "find_prop (length h2) h2 (ObjectAt a) k = ProtoAccessor"
      using m n by simp
    then show ?thesis
      using pa sa by (simp add: get_prop_def)
  qed
qed

lemma hasOwnProperty_builtin:
  assumes "state < length h" and "proto (obj_at h state) = ObjectPrototype"
    and "\<not> has_own h state ''hasOwnProperty''"
  shows "hasOwnProperty h state k = Inr (has_own h state k)"
proof -
  from assms(1) obtain n where "length h = Suc n" by (cases "length h") auto
  with assms(2,3) show ?thesis
    by (simp add: hasOwnProperty_def get_prop_def has_own_def builtin_names_def)
qed

lemma set_prop_own:
  "k \<noteq> ''__proto__'' \<Longrightarrow>
     set_prop h a k v = Inr (h[a := Obj (put k v (props (obj_at h a))) (proto (obj_at h a))])"
  using find_prop_accessor_key [of "length h" h "ObjectAt a" k]
  by (auto simp: set_prop_def split: found.splits)

lemma copy_loop_copies:
  assumes "newState \<noteq> state" and "newState < length h" and "state < length h"
    and "proto (obj_at h state) = ObjectPrototype"
    and "\<not> has_own h state ''hasOwnProperty''" and "\<not> has_own h state ''__proto__''"
  shows "\<exists>h'. copy_loop h state newState ks = (None, h') \<and> length h' = length h
           \<and> obj_at h' state = obj_at h state
           \<and> proto (obj_at h' newState) = proto (obj_at h newState)
           \<and> map_of (props (obj_at h' newState)) =
               (\<lambda>k. if k \<in> set ks \<and> has_own h state k then map_of (props (obj_at h state)) k
                    else map_of (props (obj_at h newState)) k)"
  using assms
proof (induction ks arbitrary: h)
  case Nil
  then show ?case by simp
next
  case (Cons k ks)
  have hop: "hasOwnProperty h state k = Inr (has_own h state k)"
    using Cons.prems(3,4,5) by (rule hasOwnProperty_builtin)
  show ?case
  proof (cases "has_own h state k")
    case False
    from Cons.IH [OF Cons.prems] obtain h' where
      "copy_loop h state newState ks = (None, h')" "length h' = length h"
      "obj_at h' state = obj_at h state"
      "proto (obj_at h' newState) = proto (obj_at h newState)"
      "map_of (props (obj_at h' newState)) =
         (\<lambda>k. if k \<in> set ks \<and> has_own h state k then map_of (props (obj_at h state)) k
              else map_of (props (obj_at h newState)) k)"
      by blast
    with False hop show ?thesis by (auto simp: fun_eq_iff)
  next
    case True
    with Cons.prems(6) have kp: "k \<noteq> ''__proto__''" by auto
    from get_prop_own [OF True] obtain v where v: "map_of (props (obj_at h state)) k = Some v"
      and gv: "get_prop h state k = Val v"
      by blast
    let ?h1 = "h[newState := Obj (put k v (props (obj_at h newState))) (proto (obj_at h newState))]"
    have sp: "set_prop h newState k v = Inr ?h1"
      using kp by (rule set_prop_own)
    have same: "obj_at ?h1 state = obj_at h state"
      using Cons.prems(1) by (simp add: obj_at_update)
    have p1: "newState < length ?h1" "state < length ?h1" using Cons.prems(2,3) by simp_all
    have p2: "proto (obj_at ?h1 state) = ObjectPrototype"
      "\<not> has_own ?h1 state ''hasOwnProperty''" "\<not> has_own ?h1 state ''__proto__''"
      using Cons.prems(4,5,6) same by (simp_all add: has_own_def)
    from Cons.IH [OF Cons.prems(1) p1 p2] obtain h' where
      c: "copy_loop ?h1 state newState ks = (None, h')" and l: "length h' = length ?h1"
      and o: "obj_at h' state = obj_at ?h1 state"
      and pr: "proto (obj_at h' newState) = proto (obj_at ?h1 newState)"
      and m: "map_of (props (obj_at h' newState)) =
         (\<lambda>k. if k \<in> set ks \<and> has_own ?h1 state k then map_of (props (obj_at ?h1 state)) k
              else map_of (props (obj_at ?h1 newState)) k)"
      by blast
    have "copy_loop h state newState (k # ks) = (None, h')"
      using hop True gv sp c by simp
    moreover have "length h' = length h" using l by simp
    moreover have "obj_at h' state = obj_at h state"
      using o same by simp
    moreover have "proto (obj_at h' newState) = proto (obj_at h newState)"
      using pr Cons.prems(2) by (simp add: obj_at_update)
    moreover have "map_of (props (obj_at h' newState)) =
         (\<lambda>k'. if k' \<in> set (k # ks) \<and> has_own h state k' then map_of (props (obj_at h state)) k'
              else map_of (props (obj_at h newState)) k')"
      using m same v Cons.prems(2)
      by (auto simp: fun_eq_iff has_own_def obj_at_update map_of_put)
    ultimately show ?thesis by blast
  qed
qed

lemma for_in_keys_plain:
  assumes "state < length h" and "proto (obj_at h state) = ObjectPrototype"
  shows "set (for_in_keys h state) = fst ` set (props (obj_at h state))"
proof -
  from assms(1) obtain n where "length h = Suc n" by (cases "length h") auto
  with assms(2) show ?thesis by (simp add: for_in_keys_def)
qed

lemma createNewStateObj_copies:
  assumes "state < length h" and "proto (obj_at h state) = ObjectPrototype"
    and "\<not> has_own h state ''hasOwnProperty''" and "\<not> has_own h state ''__proto__''"
  shows "\<exists>h'. createNewStateObj h state = (Inr (length h), h') \<and> length h' = Suc (length h)
           \<and> take (length h) h' = h
           \<and> proto (obj_at h' (length h)) = ObjectPrototype
           \<and> map_of (props (obj_at h' (length h))) = map_of (props (obj_at h state))"
proof -
  let ?h1 = "h @ [plain []]"
  have same: "obj_at ?h1 state = obj_at h state"
    using assms(1) by (rule obj_at_append)
  have pre: "length h \<noteq> state" "length h < length ?h1" "state < length ?h1"
    "proto (obj_at ?h1 state) = ObjectPrototype"
    "\<not> has_own ?h1 state ''hasOwnProperty''" "\<not> has_own ?h1 state ''__proto__''"
    using assms same by (simp_all add: has_own_def)
  from copy_loop_copies [OF pre, of "for_in_keys ?h1 state"] obtain h' where
    c: "copy_loop ?h1 state (length h) (for_in_keys ?h1 state) = (None, h')"
    and l: "length h' = length ?h1"
    and pr: "proto (obj_at h' (length h)) = proto (obj_at ?h1 (length h))"
    and m: "map_of (props (obj_at h' (length h))) =
         (\<lambda>k. if k \<in> set (for_in_keys ?h1 state) \<and> has_own ?h1 state k
              then map_of (props (obj_at ?h1 state)) k
              else map_of (props (obj_at ?h1 (length h))) k)"
    by blast
  have "createNewStateObj h state = (Inr (length h), h')"
    using c by (simp add: createNewStateObj_def alloc_def)
  moreover have "take (length h) h' = h"
    using createNewStateObj_take [of h state] calculation by simp
  moreover have "proto (obj_at h' (length h)) = ObjectPrototype"
    using pr by (simp add: obj_at_alloc plain_def)
  moreover have "map_of (props (obj_at h' (length h))) = map_of (props (obj_at h state))"
  proof
    fix k
    have fk: "set (for_in_keys ?h1 state) = fst ` set (props (obj_at h state))"
      using for_in_keys_plain [OF pre(3,4)] same by simp
    have ho: "has_own ?h1 state k = has_own h state k"
      using same by (simp add: has_own_def)
    have new: "props (obj_at ?h1 (length h)) = []"
      by (simp add: obj_at_alloc plain_def)
    have "map_of (props (obj_at h' (length h))) k =
            (if k \<in> fst ` set (props (obj_at h state)) \<and> has_own h state k
             then map_of (props (obj_at h state)) k else None)"
      unfolding m fk ho same new by simp
    then have "map_of (props (obj_at h' (length h))) k =
            (if has_own h state k then map_of (props (obj_at h state)) k else None)"
      by (simp add: has_own_def map_of_eq_None_iff)
    then show "map_of (props (obj_at h' (length h))) k = map_of (props (obj_at h state)) k"
      by (simp add: has_own_def)
  qed
  ultimately show ?thesis using l by auto
qed

lemma falsy_void_or_object: "void_or_object v \<Longrightarrow> (\<not> truthy v) = loose_eq_null v"
  by (cases v) (simp_all add: loose_eq_null_def)

section \<open>The reducer never writes to an existing object\<close>

text \<open>
  C5. For every heap, state and action, whatever the call does (return a state
  or fail), the heap after \<open>reducer\<close> starts with the heap before it: every object
  that existed before the call, the state and each piece among them, is at the
  same address with the same properties and the same prototype. The reducer
  only adds objects.
\<close>

theorem reducer_frame:
  "take (length h) (snd (reducer seg h state0 act)) = h"
proof (cases state0)
  case None
  then show ?thesis
    by (simp add: reducer_def alloc_def replace_entry_take_fresh split: sum.splits)
next
  case (Some s)
  then show ?thesis
    by (simp add: reducer_def alloc_def replace_entry_take split: sum.splits)
qed

section \<open>Load, then init\<close>

text \<open>
  C1, as the code has it. Let the three action types be distinct, let \<open>ld\<close> be
  a load action whose payload has a truthy \<^verbatim>\<open>loaded\<close> property, and let the
  reducer return the state \<open>s1\<close> for it. If the query identity is \<^verbatim>\<open>__proto__\<close>,
  let the payload be an object as an object literal makes it. Then an init
  action for the same query identity, processed on \<open>s1\<close> in any heap that only
  gained objects since, returns the very same state \<open>s1\<close> and leaves the heap as
  it is, and the entry of \<open>s1\<close> at the query identity is still the payload of
  the load.
\<close>

theorem init_after_loaded_load:
  assumes types: "distinct_types seg"
    and ld: "atype ld = JStr (loadActionType seg)"
    and loaded: "loaded_of h (Val (payload ld)) = Inr l" "truthy_rval l"
    and literal: "prop_key (queryId ld) = ''__proto__'' \<Longrightarrow> is_plain h (payload ld)"
    and run: "reducer seg h state0 ld = (Inr s1, h1)"
    and ext: "take (length h1) h2 = h1"
    and ini: "atype ini = JStr (initActionType seg)" "queryId ini = queryId ld"
  shows "reducer seg h2 (Some s1) ini = (Inr s1, h2)
       \<and> get_prop h2 s1 (prop_key (queryId ld)) = Val (payload ld)"
proof -
  let ?k = "prop_key (queryId ld)"
  from loaded_of_truthy [OF loaded] obtain p v where P: "payload ld = Ref p"
    and p: "p < length h" and v: "truthy v"
    and fl: "find_prop (length h) h (ObjectAt p) ''loaded'' = Data v"
    by auto
  obtain state h0 where
    st: "(case state0 of None \<Rightarrow> alloc h (plain []) | Some s \<Rightarrow> (s, h)) = (state, h0)"
    by (cases "case state0 of None \<Rightarrow> alloc h (plain []) | Some s \<Rightarrow> (s, h)")
  then have h0: "take (length h) h0 = h"
    by (cases state0) (auto simp: alloc_def)
  from types ld have "atype ld \<noteq> JStr (cleanActionType seg)"
    by (auto simp: distinct_types_def)
  with run st ld have re: "replace_entry h0 state ld = (Inr s1, h1)"
    by (simp add: reducer_def)
  note R = replace_entry_Inr [OF re]
  from R(4) P obtain hc where lc: "length hc = Suc (length h0)"
    and tc: "take (length h0) hc = h0"
    and sp: "set_prop hc s1 ?k (Ref p) = Inr h1"
    by auto
  have s1c: "s1 < length hc" using R(1) lc by simp
  have s1: "s1 < length h1" using R(1,2) by simp
  have thc: "take (length h) hc = h" and lh0: "length h \<le> length h0"
    using take_take_prefix [OF tc h0] by simp_all
  have th1: "take (length h) h1 = h"
    using take_take_prefix(1) [OF R(3) h0] .
  have th2: "take (length h) h2 = h"
    using take_take_prefix(1) [OF ext th1] .
  have pc: "is_plain hc (Ref p) \<and> p < length hc" if "?k = ''__proto__''"
  proof -
    have "obj_at hc p = obj_at h p" using obj_at_prefix [OF thc p] .
    with literal [OF that] P lc lh0 p show ?thesis by (simp add: has_own_def)
  qed
  have e2: "get_prop h2 s1 ?k = Val (Ref p)"
    using entry_read [OF set_prop_entry [OF sp s1c pc] s1 ext] by simp
  have "find_prop (length h2) h2 (ObjectAt p) ''loaded'' = Data v"
  proof (rule find_prop_Data_mono [OF fl _ th2])
    show "length h \<le> length h2"
      using take_take_prefix(2) [of h2 h2 h] th2 by simp
  qed
  then have l2: "get_prop h2 p ''loaded'' = Val v"
    by (simp add: get_prop_def)
  have "isUninitialized h2 s1 ?k = Inr False"
    using e2 l2 v by (simp add: isUninitialized_def)
  moreover from types ini have "atype ini \<noteq> JStr (cleanActionType seg)"
    "atype ini \<noteq> JStr (loadActionType seg)"
    by (auto simp: distinct_types_def)
  ultimately have "reducer seg h2 (Some s1) ini = (Inr s1, h2)"
    using ini by (simp add: reducer_def)
  with e2 P show ?thesis by simp
qed

text \<open>
  Two runs of it. The piece at address 1 is loaded and the empty state is at
  address 0; the load returns the new state at address 2, and the init that
  follows (its blank piece is at address 3) returns address 2 again. In the
  first run the query identity is \<^verbatim>\<open>q\<close>. In the second it is \<^verbatim>\<open>__proto__\<close>: the load
  makes the piece the prototype of the new state, and reading \<^verbatim>\<open>__proto__\<close> on that
  state yields the piece.
\<close>

theorem init_after_loaded_load_witness:
  "distinct_types demo_segment
   \<and> loaded_of [plain [], loaded_piece] (Val (payload (load_action ''q'' 1)))
       = Inr (Val (JBool True))
   \<and> reducer demo_segment [plain [], loaded_piece] (Some 0) (load_action ''q'' 1)
       = (Inr 2, [plain [], loaded_piece, plain [(''q'', Ref 1)]])
   \<and> reducer demo_segment [plain [], loaded_piece, plain [(''q'', Ref 1)], blank_piece] (Some 2)
         (init_action ''q'' 3)
       = (Inr 2, [plain [], loaded_piece, plain [(''q'', Ref 1)], blank_piece])
   \<and> get_prop [plain [], loaded_piece, plain [(''q'', Ref 1)], blank_piece] 2 ''q''
       = Val (Ref 1)
   \<and> is_plain [plain [], loaded_piece] (payload (load_action ''__proto__'' 1))
   \<and> reducer demo_segment [plain [], loaded_piece] (Some 0) (load_action ''__proto__'' 1)
       = (Inr 2, [plain [], loaded_piece, Obj [] (ObjectAt 1)])
   \<and> reducer demo_segment [plain [], loaded_piece, Obj [] (ObjectAt 1), blank_piece] (Some 2)
         (init_action ''__proto__'' 3)
       = (Inr 2, [plain [], loaded_piece, Obj [] (ObjectAt 1), blank_piece])
   \<and> get_prop [plain [], loaded_piece, Obj [] (ObjectAt 1), blank_piece] 2 ''__proto__''
       = Val (Ref 1)"
proof -
  have a: "distinct_types demo_segment"
    by (simp add: distinct_types_def demo_segment_def)
  have d: "truthy_rval (Val (JBool True))"
    by simp
  have b: "atype (load_action ''q'' 1) = JStr (loadActionType demo_segment)"
    by (simp add: load_action_def demo_segment_def)
  have c: "loaded_of [plain [], loaded_piece] (Val (payload (load_action ''q'' 1)))
             = Inr (Val (JBool True))"
    by (simp add: run_defs)
  have p: "prop_key (queryId (load_action ''q'' 1)) = ''__proto__''
             \<Longrightarrow> is_plain [plain [], loaded_piece] (payload (load_action ''q'' 1))"
    by (simp add: load_action_def)
  have e: "reducer demo_segment [plain [], loaded_piece] (Some 0) (load_action ''q'' 1)
             = (Inr 2, [plain [], loaded_piece, plain [(''q'', Ref 1)]])"
    by (simp add: run_defs)
  have f: "take (length [plain [], loaded_piece, plain [(''q'', Ref 1)]])
             [plain [], loaded_piece, plain [(''q'', Ref 1)], blank_piece]
             = [plain [], loaded_piece, plain [(''q'', Ref 1)]]"
    by simp
  have g: "atype (init_action ''q'' 3) = JStr (initActionType demo_segment)"
    by (simp add: init_action_def demo_segment_def)
  have i: "queryId (init_action ''q'' 3) = queryId (load_action ''q'' 1)"
    by (simp add: init_action_def load_action_def)
  have b': "atype (load_action ''__proto__'' 1) = JStr (loadActionType demo_segment)"
    by (simp add: load_action_def demo_segment_def)
  have c': "loaded_of [plain [], loaded_piece] (Val (payload (load_action ''__proto__'' 1)))
             = Inr (Val (JBool True))"
    by (simp add: run_defs)
  have p': "is_plain [plain [], loaded_piece] (payload (load_action ''__proto__'' 1))"
    by (simp add: run_defs)
  have e': "reducer demo_segment [plain [], loaded_piece] (Some 0) (load_action ''__proto__'' 1)
             = (Inr 2, [plain [], loaded_piece, Obj [] (ObjectAt 1)])"
    by (simp add: run_defs)
  have f': "take (length [plain [], loaded_piece, Obj [] (ObjectAt 1)])
             [plain [], loaded_piece, Obj [] (ObjectAt 1), blank_piece]
             = [plain [], loaded_piece, Obj [] (ObjectAt 1)]"
    by simp
  have g': "atype (init_action ''__proto__'' 3) = JStr (initActionType demo_segment)"
    by (simp add: init_action_def demo_segment_def)
  have i': "queryId (init_action ''__proto__'' 3) = queryId (load_action ''__proto__'' 1)"
    by (simp add: init_action_def load_action_def)
  show ?thesis
    using init_after_loaded_load [OF a b c d p e f g i]
      init_after_loaded_load [OF a b' c' d p' e' f' g' i'] a c e p' e'
    by (simp add: load_action_def)
qed

text \<open>
  C1 as the specification states it, for every payload, fails on a load that
  did not succeed. The piece at address 1 carries errors and \<^verbatim>\<open>loaded: false\<close>,
  as \<open>createSyncLoadActionObject\<close> makes it. The load stores it under \<^verbatim>\<open>q\<close> in the
  new state at address 2; the init that follows finds the entry not loaded,
  copies the state to address 4 and stores its own blank piece (address 3)
  under \<^verbatim>\<open>q\<close>: the entry is no longer the payload of the load.
\<close>

theorem init_after_failed_load_counterexample:
  "createSyncLoadActionObject demo_segment [plain []] ''q'' Null (JStr ''timeout'') 1
     = (load_action ''q'' 1, [plain [], failed_piece])
   \<and> reducer demo_segment [plain [], failed_piece] (Some 0) (load_action ''q'' 1)
       = (Inr 2, [plain [], failed_piece, plain [(''q'', Ref 1)]])
   \<and> createSyncInitAction demo_segment [plain [], failed_piece, plain [(''q'', Ref 1)]] ''q'' 2
       = (init_action ''q'' 3, [plain [], failed_piece, plain [(''q'', Ref 1)], blank_piece])
   \<and> reducer demo_segment [plain [], failed_piece, plain [(''q'', Ref 1)], blank_piece] (Some 2)
         (init_action ''q'' 3)
       = (Inr 4, [plain [], failed_piece, plain [(''q'', Ref 1)], blank_piece,
                  plain [(''q'', Ref 3)]])
   \<and> get_prop [plain [], failed_piece, plain [(''q'', Ref 1)], blank_piece,
                 plain [(''q'', Ref 3)]] 4 ''q''
       \<noteq> Val (payload (load_action ''q'' 1))"
  by (simp add: run_defs)

section \<open>The comparator\<close>

text \<open>
  C2. For all states \<open>s1\<close>, \<open>s2\<close> and every query identity \<open>q\<close>: if \<open>comparePiece\<close>
  returns something other than \<^verbatim>\<open>null\<close>, then \<^verbatim>\<open>s1[q]\<close> and \<^verbatim>\<open>s2[q]\<close> are not
  identical (\<^verbatim>\<open>!==\<close>) and the result is the one-element array holding \<^verbatim>\<open>s2[q]\<close>;
  if it returns \<^verbatim>\<open>null\<close>, then the two states are the same object or \<^verbatim>\<open>s1[q]\<close>
  and \<^verbatim>\<open>s2[q]\<close> are identical.
\<close>

theorem comparePiece_sound:
  "(comparePiece h s1 s2 q \<noteq> None \<longrightarrow>
      \<not> strict_eq (get_prop h s1 q) (get_prop h s2 q)
      \<and> comparePiece h s1 s2 q = Some [get_prop h s2 q])
   \<and> (comparePiece h s1 s2 q = None \<longrightarrow>
      s1 = s2 \<or> strict_eq (get_prop h s1 q) (get_prop h s2 q))"
  by (simp add: comparePiece_def isStateEqual_def getPieceObject_def)

text \<open>
  Two states that differ at \<^verbatim>\<open>q\<close> (a change is reported) and agree at \<^verbatim>\<open>r\<close>, where
  neither has an entry (\<^verbatim>\<open>null\<close>).
\<close>

theorem comparePiece_sound_witness:
  "comparePiece [plain [(''q'', Ref 2)], plain [(''q'', Ref 3)], loaded_piece, failed_piece]
       0 1 ''q'' \<noteq> None
   \<and> \<not> strict_eq
         (get_prop [plain [(''q'', Ref 2)], plain [(''q'', Ref 3)], loaded_piece, failed_piece]
            0 ''q'')
         (get_prop [plain [(''q'', Ref 2)], plain [(''q'', Ref 3)], loaded_piece, failed_piece]
            1 ''q'')
   \<and> comparePiece [plain [(''q'', Ref 2)], plain [(''q'', Ref 3)], loaded_piece, failed_piece]
         0 1 ''q''
       = Some [Val (Ref 3)]
   \<and> comparePiece [plain [(''q'', Ref 2)], plain [(''q'', Ref 3)], loaded_piece, failed_piece]
         0 1 ''r'' = None
   \<and> strict_eq
         (get_prop [plain [(''q'', Ref 2)], plain [(''q'', Ref 3)], loaded_piece, failed_piece]
            0 ''r'')
         (get_prop [plain [(''q'', Ref 2)], plain [(''q'', Ref 3)], loaded_piece, failed_piece]
            1 ''r'')"
  using comparePiece_sound
          [of "[plain [(''q'', Ref 2)], plain [(''q'', Ref 3)], loaded_piece, failed_piece]"
              0 1 "''q''"]
        comparePiece_sound
          [of "[plain [(''q'', Ref 2)], plain [(''q'', Ref 3)], loaded_piece, failed_piece]"
              0 1 "''r''"]
  by (simp add: run_defs)

text \<open>
  C10 at a state whose prototype is a piece. Such a state is what the reducer
  itself returns for a load with the query identity \<^verbatim>\<open>__proto__\<close> on the empty
  state: the assignment \<^verbatim>\<open>newState['__proto__'] = payload\<close> runs the setter. Neither
  the empty state (address 0) nor the new one (address 2) has an own entry under
  \<^verbatim>\<open>loaded\<close>, yet the new state reads \<^verbatim>\<open>true\<close> there, through its prototype, and
  \<open>comparePiece\<close> reports a change.
\<close>

theorem comparePiece_reports_inherited_entry:
  "reducer demo_segment [plain [], loaded_piece] (Some 0) (load_action ''__proto__'' 1)
     = (Inr 2, [plain [], loaded_piece, Obj [] (ObjectAt 1)])
   \<and> \<not> has_own [plain [], loaded_piece, Obj [] (ObjectAt 1)] 0 ''loaded''
   \<and> \<not> has_own [plain [], loaded_piece, Obj [] (ObjectAt 1)] 2 ''loaded''
   \<and> get_prop [plain [], loaded_piece, Obj [] (ObjectAt 1)] 0 ''loaded'' = Val Undefined
   \<and> get_prop [plain [], loaded_piece, Obj [] (ObjectAt 1)] 2 ''loaded'' = Val (JBool True)
   \<and> comparePiece [plain [], loaded_piece, Obj [] (ObjectAt 1)] 0 2 ''loaded''
       = Some [Val (JBool True)]"
  by (simp add: run_defs)

text \<open>
  Between two states that both have \<^verbatim>\<open>Object.prototype\<close> as their prototype, as
  every state has that the reducer makes from query identities other than
  \<^verbatim>\<open>__proto__\<close>, a query identity that is an own key of neither is never reported:
  both reads fall through to \<^verbatim>\<open>Object.prototype\<close> and yield the same value.
\<close>

lemma comparePiece_absent_plain:
  assumes "proto (obj_at h s1) = ObjectPrototype" and "proto (obj_at h s2) = ObjectPrototype"
    and "\<not> has_own h s1 q" and "\<not> has_own h s2 q"
  shows "comparePiece h s1 s2 q = None"
proof (cases "length h")
  case 0
  then show ?thesis
    by (simp add: comparePiece_def get_prop_def strict_eq_def)
next
  case (Suc n)
  with assms have "find_prop (length h) h (ObjectAt s1) q = find_prop n h ObjectPrototype q"
    and "find_prop (length h) h (ObjectAt s2) q = find_prop n h ObjectPrototype q"
    by (simp_all add: has_own_def)
  with assms(1,2) have "get_prop h s1 q = get_prop h s2 q" and "get_prop h s1 q \<noteq> Val JNaN"
    by (simp_all add: get_prop_def)
  then show ?thesis
    by (simp add: comparePiece_def strict_eq_def)
qed

section \<open>The cases of the reducer\<close>

text \<open>
  C3. Let the three action types be distinct. For every state \<open>s\<close> and init
  action whose query identity has an entry in \<open>s\<close> with \<^verbatim>\<open>loaded === true\<close>, the
  reducer returns \<open>s\<close> itself, the same address and not a copy, and allocates
  nothing.
\<close>

theorem init_on_loaded_same_state:
  assumes "distinct_types seg"
    and "atype act = JStr (initActionType seg)"
    and "loaded_of h (get_prop h s (prop_key (queryId act))) = Inr (Val (JBool True))"
  shows "reducer seg h (Some s) act = (Inr s, h)"
proof -
  from assms(3) have "truthy_rval (get_prop h s (prop_key (queryId act)))"
    using loaded_of_truthy [of h _ "Val (JBool True)"] by fastforce
  with assms(3) have "isUninitialized h s (prop_key (queryId act)) = Inr False"
    by (simp add: isUninitialized_def)
  moreover from assms(1,2) have "atype act \<noteq> JStr (cleanActionType seg)"
    "atype act \<noteq> JStr (loadActionType seg)"
    by (auto simp: distinct_types_def)
  ultimately show ?thesis
    using assms(2) by (simp add: reducer_def)
qed

theorem init_on_loaded_same_state_witness:
  "distinct_types demo_segment
   \<and> atype (init_action ''q'' 2) = JStr (initActionType demo_segment)
   \<and> loaded_of [plain [(''q'', Ref 1)], loaded_piece, blank_piece]
        (get_prop [plain [(''q'', Ref 1)], loaded_piece, blank_piece] 0
           (prop_key (queryId (init_action ''q'' 2))))
       = Inr (Val (JBool True))
   \<and> reducer demo_segment [plain [(''q'', Ref 1)], loaded_piece, blank_piece] (Some 0)
         (init_action ''q'' 2)
       = (Inr 0, [plain [(''q'', Ref 1)], loaded_piece, blank_piece])"
proof -
  have a: "distinct_types demo_segment"
    by (simp add: distinct_types_def demo_segment_def)
  have b: "atype (init_action ''q'' 2) = JStr (initActionType demo_segment)"
    by (simp add: init_action_def demo_segment_def)
  have c: "loaded_of [plain [(''q'', Ref 1)], loaded_piece, blank_piece]
             (get_prop [plain [(''q'', Ref 1)], loaded_piece, blank_piece] 0
                (prop_key (queryId (init_action ''q'' 2))))
           = Inr (Val (JBool True))"
    by (simp add: run_defs)
  show ?thesis
    using init_on_loaded_same_state [OF a b c] a b c by simp
qed

text \<open>
  C7. For every state, also a missing one and whatever it holds, an action of
  the segment's clean type makes the reducer return a new object that has no
  entries.
\<close>

theorem clean_returns_empty:
  assumes "atype act = JStr (cleanActionType seg)"
  shows "\<exists>a h'. reducer seg h state0 act = (Inr a, h') \<and> obj_at h' a = plain []
           \<and> length h \<le> a \<and> a < length h'"
  using assms by (cases state0) (simp_all add: reducer_def alloc_def obj_at_def nth_append)

theorem clean_returns_empty_witness:
  "atype (createSyncCleanAction demo_segment) = JStr (cleanActionType demo_segment)
   \<and> reducer demo_segment [plain [(''q'', Ref 1)], loaded_piece] (Some 0)
         (createSyncCleanAction demo_segment)
       = (Inr 2, [plain [(''q'', Ref 1)], loaded_piece, plain []])
   \<and> obj_at [plain [(''q'', Ref 1)], loaded_piece, plain []] 2 = plain []"
proof -
  have a: "atype (createSyncCleanAction demo_segment) = JStr (cleanActionType demo_segment)"
    by (simp add: createSyncCleanAction_def)
  show ?thesis
    using clean_returns_empty [OF a, of "[plain [(''q'', Ref 1)], loaded_piece]" "Some 0"] a
    by (simp add: run_defs)
qed

text \<open>
  C9. For every state \<open>s\<close> and every action whose type is none of the segment's
  load, init and clean types, the reducer returns \<open>s\<close> itself and allocates
  nothing.
\<close>

theorem other_action_same_state:
  assumes "atype act \<noteq> JStr (cleanActionType seg)"
    and "atype act \<noteq> JStr (loadActionType seg)"
    and "atype act \<noteq> JStr (initActionType seg)"
  shows "reducer seg h (Some s) act = (Inr s, h)"
  using assms by (simp add: reducer_def)

theorem other_action_same_state_witness:
  "JStr ''post.LOAD'' \<noteq> JStr (cleanActionType demo_segment)
   \<and> JStr ''post.LOAD'' \<noteq> JStr (loadActionType demo_segment)
   \<and> JStr ''post.LOAD'' \<noteq> JStr (initActionType demo_segment)
   \<and> reducer demo_segment [plain [(''q'', Ref 1)], loaded_piece] (Some 0)
         \<lparr> atype = JStr ''post.LOAD'', queryId = Some ''q'', payload = Ref 1 \<rparr>
       = (Inr 0, [plain [(''q'', Ref 1)], loaded_piece])"
  using other_action_same_state
          [of "\<lparr> atype = JStr ''post.LOAD'', queryId = Some ''q'', payload = Ref 1 \<rparr>"
              demo_segment "[plain [(''q'', Ref 1)], loaded_piece]" 0]
  by (simp add: demo_segment_def)

text \<open>
  C4 at a state that has an entry under the key \<^verbatim>\<open>hasOwnProperty\<close>. Such a
  state is what the reducer itself returns for a load with that query identity
  on the empty state. On it a load for any other query does not return a state:
  the copy loop looks \<^verbatim>\<open>hasOwnProperty\<close> up on the state, finds the piece and
  calls it, which throws.
\<close>

theorem load_on_hasOwnProperty_entry_throws:
  "reducer demo_segment [plain [], loaded_piece] (Some 0) (load_action ''hasOwnProperty'' 1)
     = (Inr 2, [plain [], loaded_piece, plain [(''hasOwnProperty'', Ref 1)]])
   \<and> reducer demo_segment [plain [], loaded_piece, plain [(''hasOwnProperty'', Ref 1)]] (Some 2)
         (load_action ''q'' 1)
       = (Inl TypeError, [plain [], loaded_piece, plain [(''hasOwnProperty'', Ref 1)], plain []])"
  by (simp add: run_defs)

text \<open>
  Away from that key the load does what C4 says. Let the state be an object of
  the heap with \<^verbatim>\<open>Object.prototype\<close> as its prototype and no entry under
  \<^verbatim>\<open>hasOwnProperty\<close> or \<^verbatim>\<open>__proto__\<close>, and let the query identity not be \<^verbatim>\<open>__proto__\<close>.
  Then the reducer returns a new object, the old heap is untouched, and the new
  object has the entries of the state, the same values under the same keys,
  except that the query identity maps to the payload.
\<close>

lemma load_copies_entries:
  assumes "atype act = JStr (loadActionType seg)"
    and "loadActionType seg \<noteq> cleanActionType seg"
    and "state < length h" and "proto (obj_at h state) = ObjectPrototype"
    and "\<not> has_own h state ''hasOwnProperty''" and "\<not> has_own h state ''__proto__''"
    and "prop_key (queryId act) \<noteq> ''__proto__''"
  shows "\<exists>h'. reducer seg h (Some state) act = (Inr (length h), h')
           \<and> take (length h) h' = h
           \<and> proto (obj_at h' (length h)) = ObjectPrototype
           \<and> map_of (props (obj_at h' (length h))) =
               (map_of (props (obj_at h state)))(prop_key (queryId act) \<mapsto> payload act)"
proof -
  from createNewStateObj_copies [OF assms(3,4,5,6)] obtain h1 where
    c: "createNewStateObj h state = (Inr (length h), h1)" and l: "length h1 = Suc (length h)"
    and t: "take (length h) h1 = h"
    and pr: "proto (obj_at h1 (length h)) = ObjectPrototype"
    and m: "map_of (props (obj_at h1 (length h))) = map_of (props (obj_at h state))"
    by blast
  let ?h2 = "h1[length h := Obj (put (prop_key (queryId act)) (payload act)
                                   (props (obj_at h1 (length h))))
                               (proto (obj_at h1 (length h)))]"
  have sp: "set_prop h1 (length h) (prop_key (queryId act)) (payload act) = Inr ?h2"
    using assms(7) by (rule set_prop_own)
  have "reducer seg h (Some state) act = (Inr (length h), ?h2)"
    using assms(1,2) c sp by (simp add: reducer_def replace_entry_def)
  moreover have "take (length h) ?h2 = h" using t by simp
  moreover have "proto (obj_at ?h2 (length h)) = ObjectPrototype"
    using l pr by (simp add: obj_at_update)
  moreover have "map_of (props (obj_at ?h2 (length h))) =
      (map_of (props (obj_at h state)))(prop_key (queryId act) \<mapsto> payload act)"
    using l m by (simp add: obj_at_update map_of_put)
  ultimately show ?thesis by blast
qed

section \<open>The action creators and the abstract hooks\<close>

text \<open>
  C6, as the code has it. For every query identity, payload, errors argument
  and clock reading, the payload of the action is a new piece that stores the
  errors as passed and whose \<^verbatim>\<open>loaded\<close> is the negation of the truthiness of the
  errors. For errors that are \<^verbatim>\<open>undefined\<close>, \<^verbatim>\<open>null\<close> or an object, \<^verbatim>\<open>loaded\<close> equals
  \<^verbatim>\<open>errors == null\<close>. If \<^verbatim>\<open>loaded\<close> is \<^verbatim>\<open>true\<close>, the errors are falsy.
\<close>

theorem syncLoad_loaded:
  assumes "createSyncLoadActionObject seg h qid pl errors now = (act, h')"
  shows "\<exists>piece. payload act = Ref piece
           \<and> get_prop h' piece ''errors'' = Val errors
           \<and> get_prop h' piece ''loaded'' = Val (JBool (\<not> truthy errors))
           \<and> (void_or_object errors \<longrightarrow>
                get_prop h' piece ''loaded'' = Val (JBool (loose_eq_null errors)))
           \<and> (get_prop h' piece ''loaded'' = Val (JBool True) \<longrightarrow> \<not> truthy errors)"
proof -
  let ?piece = "plain [(''data'', pl), (''updated'', JNum now), (''errors'', errors),
                       (''loaded'', JBool (if truthy errors then False else True))]"
  from assms have act: "payload act = Ref (length h)" and h': "h' = h @ [?piece]"
    by (auto simp: createSyncLoadActionObject_def alloc_def)
  have e: "get_prop h' (length h) ''errors'' = Val errors"
    unfolding h' get_prop_def by (simp add: obj_at_alloc plain_def)
  have l: "get_prop h' (length h) ''loaded'' = Val (JBool (\<not> truthy errors))"
    unfolding h' get_prop_def by (simp add: obj_at_alloc plain_def)
  from act e l show ?thesis
    using falsy_void_or_object [of errors] by auto
qed

theorem syncLoad_loaded_witness:
  "createSyncLoadActionObject demo_segment [] ''q'' (JStr ''alice'') Undefined 1
     = (load_action ''q'' 0, [loaded_piece])
   \<and> payload (load_action ''q'' 0) = Ref 0
   \<and> void_or_object Undefined
   \<and> get_prop [loaded_piece] 0 ''errors'' = Val Undefined
   \<and> get_prop [loaded_piece] 0 ''loaded'' = Val (JBool True)
   \<and> get_prop [loaded_piece] 0 ''loaded'' = Val (JBool (loose_eq_null Undefined))
   \<and> \<not> truthy Undefined"
proof -
  have a: "createSyncLoadActionObject demo_segment [] ''q'' (JStr ''alice'') Undefined 1
             = (load_action ''q'' 0, [loaded_piece])"
    by (simp add: run_defs)
  show ?thesis
    using syncLoad_loaded [OF a] a
    by (simp add: run_defs loose_eq_null_def)
qed

text \<open>
  C6 as the specification states it fails twice. With the empty string as
  errors the piece is loaded, although \<^verbatim>\<open>'' == null\<close> is false. With no errors
  passed (\<^verbatim>\<open>undefined\<close>) the piece is loaded and its errors are \<^verbatim>\<open>undefined\<close>, which is
  not \<^verbatim>\<open>=== null\<close>.
\<close>

theorem syncLoad_loaded_counterexample:
  "get_prop (snd (createSyncLoadActionObject demo_segment [] ''q'' Null (JStr '''') 1)) 0 ''loaded''
     = Val (JBool True)
   \<and> \<not> loose_eq_null (JStr '''')
   \<and> get_prop (snd (createSyncLoadActionObject demo_segment [] ''q'' Null Undefined 1)) 0 ''loaded''
       = Val (JBool True)
   \<and> get_prop (snd (createSyncLoadActionObject demo_segment [] ''q'' Null Undefined 1)) 0 ''errors''
       \<noteq> Val Null"
  by (simp add: run_defs loose_eq_null_def)

text \<open>
  C8. For every instance and every argument, each of the two abstract hooks of
  the base class returns nothing and throws an \<^verbatim>\<open>Error\<close>: the throw is the whole
  body of the method.
\<close>

theorem abstract_hooks_throw:
  "(\<exists>msg. generateQueryId inst query = Inl (Error msg))
   \<and> (\<exists>msg. generateThunkFunction inst thunk = Inl (Error msg))"
  by (simp add: generateQueryId_def generateThunkFunction_def)

end
